theory Spec2Isabelle
  imports Complex_Main
begin

section \<open>The Joides solver of GHSZ.py and its grid evaluation\<close>

text \<open>
  The development embeds \<^verbatim>\<open>src/GHSZ.py\<close>: the function \<^verbatim>\<open>joides\<close> with its
  module-level dictionary \<^verbatim>\<open>memoize_dict\<close>, and the body of the script that applies it
  to a raster.

  Conventions of the embedding.
  \<^item> Python floats are read as real numbers: \<^verbatim>\<open>math.log\<close> is \<open>ln\<close>, the decimal
    constants of the source are the rationals they denote, and rounding of IEEE doubles is
    not modelled.
  \<^item> Python integers are \<open>int\<close>.
  \<^item> Every exception the arithmetic of \<^verbatim>\<open>joides\<close> can raise is a value: \<^verbatim>\<open>math.log\<close>
    raises \<^verbatim>\<open>ValueError\<close> on an argument that is not positive, and float division raises
    \<^verbatim>\<open>ZeroDivisionError\<close> on a zero divisor.
  \<^item> \<^verbatim>\<open>memoize_dict\<close> is a map that every function takes and returns.
  \<^item> \<^verbatim>\<open>range(1, 2501)\<close> is the list \<open>[1..2500]\<close>, and a \<^verbatim>\<open>for\<close> loop is a
    recursion over that list.
\<close>

subsection \<open>Errors and arithmetic primitives\<close>

datatype error = ValueError | ZeroDivisionError | IncorrectRasterStats

type_synonym memo = "int \<rightharpoonup> int"

type_synonym outcome = "error + int option"

definition math_log :: "real \<Rightarrow> error + real" where
  "math_log x = (if x \<le> 0 then Inl ValueError else Inr (ln x))"

definition py_div :: "real \<Rightarrow> real \<Rightarrow> error + real" where
  "py_div x y = (if y = 0 then Inl ZeroDivisionError else Inr (x / y))"

definition candidates :: "int list" where
  "candidates = [1..2500]"

subsection \<open>The solver\<close>

text \<open>
  The inner loop (lines 48 to 53). The result \<open>Inr (Some z2)\<close> is \<^verbatim>\<open>return z2\<close>,
  \<open>Inr None\<close> is the loop running to its end, \<open>Inl e\<close> is a raised exception.
\<close>

fun inner_loop :: "int \<Rightarrow> real \<Rightarrow> real \<Rightarrow> memo \<Rightarrow> int list \<Rightarrow> outcome \<times> memo" where
  "inner_loop water_depth base_water_temp geothermal_gradient m [] = (Inr None, m)"
| "inner_loop water_depth base_water_temp geothermal_gradient m (z2 # zs) =
     (case math_log (10.17 * real_of_int (water_depth + z2)) of
        Inl e \<Rightarrow> (Inl e, m)
      | Inr a2 \<Rightarrow>
          (case py_div 10748.1
                  ((base_water_temp + ((real_of_int z2 * geothermal_gradient) / 1000)) + 273.15) of
             Inl e \<Rightarrow> (Inl e, m)
           | Inr q \<Rightarrow>
               (let b2 = 46.74 - q in
                if a2 < b2 then (Inr (Some z2), m(water_depth \<mapsto> z2))
                else inner_loop water_depth base_water_temp geothermal_gradient m zs)))"

text \<open>
  The outer loop (lines 45 to 58). When the inner loop ends without returning, the outer
  loop goes on with its next candidate.
\<close>

fun outer_loop :: "int \<Rightarrow> real \<Rightarrow> real \<Rightarrow> memo \<Rightarrow> int list \<Rightarrow> outcome \<times> memo" where
  "outer_loop water_depth base_water_temp geothermal_gradient m [] = (Inr None, m)"
| "outer_loop water_depth base_water_temp geothermal_gradient m (z # zs) =
     (case math_log (10.17 * real_of_int (water_depth + z)) of
        Inl e \<Rightarrow> (Inl e, m)
      | Inr a \<Rightarrow>
          if a > 9.355001 then
            (case inner_loop water_depth base_water_temp geothermal_gradient m candidates of
               (r, m') \<Rightarrow>
                 if r = Inr None
                 then outer_loop water_depth base_water_temp geothermal_gradient m' zs
                 else (r, m'))
          else
            (case py_div 8386.8
                    ((base_water_temp + (real_of_int z * geothermal_gradient / 1000)) + 273.15) of
               Inl e \<Rightarrow> (Inl e, m)
             | Inr q \<Rightarrow>
                 (let b = 38.53 - q in
                  if a < b then (Inr (Some z), m(water_depth \<mapsto> z))
                  else outer_loop water_depth base_water_temp geothermal_gradient m zs)))"

text \<open>
  \<^verbatim>\<open>joides\<close> (lines 27 to 58): a hit in the dictionary is returned as it is; otherwise
  the outer loop runs, and falling off its end returns \<^verbatim>\<open>None\<close>.
\<close>

definition joides :: "int \<Rightarrow> real \<Rightarrow> real \<Rightarrow> memo \<Rightarrow> outcome \<times> memo" where
  "joides water_depth base_water_temp geothermal_gradient m =
     (case m water_depth of
        Some v \<Rightarrow> (Inr (Some v), m)
      | None \<Rightarrow> outer_loop water_depth base_water_temp geothermal_gradient m candidates)"

text \<open>
  The solver of the specification, \<^verbatim>\<open>solve(depth, T, G)\<close>: what \<^verbatim>\<open>joides\<close> returns
  when the dictionary has been cleared.
\<close>

definition solve :: "int \<Rightarrow> real \<Rightarrow> real \<Rightarrow> outcome" where
  "solve wd T G = fst (joides wd T G Map.empty)"

subsection \<open>The grid evaluation of the script\<close>











subsection \<open>Auxiliary notions for the properties\<close>

text \<open>The dictionary after a call that returned \<open>r\<close> for the key \<open>wd\<close>.\<close>

definition memo_after :: "memo \<Rightarrow> int \<Rightarrow> outcome \<Rightarrow> memo" where
  "memo_after m wd r = (case r of Inr (Some k) \<Rightarrow> m(wd \<mapsto> k) | _ \<Rightarrow> m)"

text \<open>The dictionary left behind by a sequence of earlier calls \<open>(water_depth, T, G)\<close>.\<close>

fun prior_calls :: "(int \<times> real \<times> real) list \<Rightarrow> memo \<Rightarrow> memo" where
  "prior_calls [] m = m"
| "prior_calls ((wd, T, G) # cs) m = prior_calls cs (snd (joides wd T G m))"

text \<open>
  A dictionary agrees with the parameters \<open>T\<close>, \<open>G\<close> when each of its entries is what
  the solver returns from the empty dictionary.
\<close>

definition memo_ok :: "real \<Rightarrow> real \<Rightarrow> memo \<Rightarrow> bool" where
  "memo_ok T G m \<longleftrightarrow> (\<forall>wd k. m wd = Some k \<longrightarrow> fst (joides wd T G Map.empty) = Inr (Some k))"

text \<open>The quantities of one candidate, with the exceptions of the source.\<close>

definition a_of :: "int \<Rightarrow> int \<Rightarrow> error + real" where
  "a_of wd z = math_log (10.17 * real_of_int (wd + z))"

definition kelvin :: "real \<Rightarrow> real \<Rightarrow> int \<Rightarrow> real" where
  "kelvin T G z = (T + (real_of_int z * G) / 1000) + 273.15"

definition b_of :: "real \<Rightarrow> real \<Rightarrow> int \<Rightarrow> error + real" where
  "b_of T G z = (case py_div 8386.8 (kelvin T G z) of Inl e \<Rightarrow> Inl e | Inr q \<Rightarrow> Inr (38.53 - q))"

definition b2_of :: "real \<Rightarrow> real \<Rightarrow> int \<Rightarrow> error + real" where
  "b2_of T G z = (case py_div 10748.1 (kelvin T G z) of Inl e \<Rightarrow> Inl e | Inr q \<Rightarrow> Inr (46.74 - q))"

text \<open>
  The inequality of the first phase at a candidate: \<open>a < b\<close>, asked only while
  \<open>a \<le> 9.355001\<close>. The inequality of the second phase: \<open>a2 < b2\<close>.
\<close>

definition phase1_test :: "int \<Rightarrow> real \<Rightarrow> real \<Rightarrow> int \<Rightarrow> error + bool" where
  "phase1_test wd T G z =
     (case a_of wd z of
        Inl e \<Rightarrow> Inl e
      | Inr a \<Rightarrow>
          if a > 9.355001 then Inr False
          else (case b_of T G z of Inl e \<Rightarrow> Inl e | Inr b \<Rightarrow> Inr (a < b)))"

definition phase2_test :: "int \<Rightarrow> real \<Rightarrow> real \<Rightarrow> int \<Rightarrow> error + bool" where
  "phase2_test wd T G z2 =
     (case a_of wd z2 of
        Inl e \<Rightarrow> Inl e
      | Inr a2 \<Rightarrow> (case b2_of T G z2 of Inl e \<Rightarrow> Inl e | Inr b2 \<Rightarrow> Inr (a2 < b2)))"

text \<open>
  The first scan as the specification words it: it stops at the first candidate whose
  \<open>a\<close> exceeds the threshold or that satisfies \<open>a < b\<close>.
\<close>

definition phase1_stop :: "int \<Rightarrow> real \<Rightarrow> real \<Rightarrow> int \<Rightarrow> error + bool" where
  "phase1_stop wd T G z =
     (case a_of wd z of
        Inl e \<Rightarrow> Inl e
      | Inr a \<Rightarrow>
          if a > 9.355001 then Inr True
          else (case b_of T G z of Inl e \<Rightarrow> Inl e | Inr b \<Rightarrow> Inr (a < b)))"

fun first_where :: "('a \<Rightarrow> error + bool) \<Rightarrow> 'a list \<Rightarrow> error + 'a option" where
  "first_where p [] = Inr None"
| "first_where p (x # xs) =
     (case p x of Inl e \<Rightarrow> Inl e | Inr t \<Rightarrow> if t then Inr (Some x) else first_where p xs)"

text \<open>
  The solver as the specification describes it: scan \<open>z = 1..2500\<close> in order; while
  \<open>a \<le> 9.355001\<close> return the first \<open>z\<close> with \<open>a < b\<close>; at the first \<open>z\<close> with
  \<open>a > 9.355001\<close> run one fresh scan \<open>z2 = 1..2500\<close> and return the first \<open>z2\<close> with
  \<open>a2 < b2\<close>.
\<close>

definition solve_spec :: "int \<Rightarrow> real \<Rightarrow> real \<Rightarrow> outcome" where
  "solve_spec wd T G =
     (case first_where (phase1_stop wd T G) [1..2500] of
        Inl e \<Rightarrow> Inl e
      | Inr None \<Rightarrow> Inr None
      | Inr (Some z) \<Rightarrow>
          (case a_of wd z of
             Inl e \<Rightarrow> Inl e
           | Inr a \<Rightarrow>
               if a > 9.355001 then first_where (phase2_test wd T G) [1..2500]
               else Inr (Some z)))"

text \<open>
  The simplified variant of the solver: as \<open>outer_loop\<close>, except that the outcome of the
  inner loop is returned at once, also when the inner loop found nothing.
\<close>

fun outer_loop_once :: "int \<Rightarrow> real \<Rightarrow> real \<Rightarrow> memo \<Rightarrow> int list \<Rightarrow> outcome \<times> memo" where
  "outer_loop_once water_depth base_water_temp geothermal_gradient m [] = (Inr None, m)"
| "outer_loop_once water_depth base_water_temp geothermal_gradient m (z # zs) =
     (case math_log (10.17 * real_of_int (water_depth + z)) of
        Inl e \<Rightarrow> (Inl e, m)
      | Inr a \<Rightarrow>
          if a > 9.355001 then
            inner_loop water_depth base_water_temp geothermal_gradient m candidates
          else
            (case py_div 8386.8
                    ((base_water_temp + (real_of_int z * geothermal_gradient / 1000)) + 273.15) of
               Inl e \<Rightarrow> (Inl e, m)
             | Inr q \<Rightarrow>
                 (let b = 38.53 - q in
                  if a < b then (Inr (Some z), m(water_depth \<mapsto> z))
                  else outer_loop_once water_depth base_water_temp geothermal_gradient m zs)))"

definition joides_simplified :: "int \<Rightarrow> real \<Rightarrow> real \<Rightarrow> memo \<Rightarrow> outcome \<times> memo" where
  "joides_simplified water_depth base_water_temp geothermal_gradient m =
     (case m water_depth of
        Some v \<Rightarrow> (Inr (Some v), m)
      | None \<Rightarrow> outer_loop_once water_depth base_water_temp geothermal_gradient m candidates)"





subsection \<open>Basic facts about the loops\<close>

lemma memo_after_simps [simp]:
  "memo_after m wd (Inl e) = m"
  "memo_after m wd (Inr None) = m"
  "memo_after m wd (Inr (Some k)) = m(wd \<mapsto> k)"
  by (simp_all add: memo_after_def)

lemma inner_loop_frame:
  "inner_loop wd T G m zs =
     (fst (inner_loop wd T G Map.empty zs), memo_after m wd (fst (inner_loop wd T G Map.empty zs)))"
  by (induction zs) (simp_all add: Let_def split: sum.splits)

lemma inner_loop_fst: "fst (inner_loop wd T G m zs) = fst (inner_loop wd T G Map.empty zs)"
  by (subst inner_loop_frame) simp

lemma inner_loop_snd: "snd (inner_loop wd T G m zs) = memo_after m wd (fst (inner_loop wd T G m zs))"
  by (subst inner_loop_frame, subst (2) inner_loop_frame) simp

lemma outer_loop_frame:
  "outer_loop wd T G m zs =
     (fst (outer_loop wd T G Map.empty zs), memo_after m wd (fst (outer_loop wd T G Map.empty zs)))"
proof (induction zs)
  case Nil
  show ?case by simp
next
  case (Cons z zs)
  obtain r where r: "fst (inner_loop wd T G Map.empty candidates) = r" by simp
  have i1: "inner_loop wd T G m candidates = (r, memo_after m wd r)"
    using inner_loop_frame [of wd T G m candidates] r by simp
  have i2: "inner_loop wd T G Map.empty candidates = (r, memo_after Map.empty wd r)"
    using inner_loop_frame [of wd T G Map.empty candidates] r by simp
  show ?case
    using Cons.IH
    by (subst (1 2 3) outer_loop.simps)
       (simp add: i1 i2 Let_def split: sum.splits)
qed

lemma outer_loop_fst: "fst (outer_loop wd T G m zs) = fst (outer_loop wd T G Map.empty zs)"
  by (subst outer_loop_frame) simp

lemma outer_loop_snd: "snd (outer_loop wd T G m zs) = memo_after m wd (fst (outer_loop wd T G m zs))"
  by (subst outer_loop_frame, subst (2) outer_loop_frame) simp

subsection \<open>The dictionary\<close>


lemma joides_fst_snd:
  "snd (joides wd T G m) = memo_after m wd (fst (joides wd T G m))"
proof (cases "m wd")
  case None
  then show ?thesis by (simp add: joides_def outer_loop_snd)
next
  case (Some v)
  then have "m(wd \<mapsto> v) = m" by (simp add: fun_upd_idem)
  with Some show ?thesis by (simp add: joides_def)
qed

lemma joides_miss: "m wd = None \<Longrightarrow> fst (joides wd T G m) = fst (joides wd T G Map.empty)"
  by (simp add: joides_def outer_loop_fst [of wd T G m])

lemma joides_hit: "m wd = Some v \<Longrightarrow> joides wd T G m = (Inr (Some v), m)"
  by (simp add: joides_def)

lemma memo_ok_empty: "memo_ok T G Map.empty"
  by (simp add: memo_ok_def)

lemma memo_ok_fst: "memo_ok T G m \<Longrightarrow> fst (joides wd T G m) = fst (joides wd T G Map.empty)"
proof (cases "m wd")
  case None
  then show ?thesis by (rule joides_miss)
next
  case (Some v)
  assume "memo_ok T G m"
  with Some have "fst (joides wd T G Map.empty) = Inr (Some v)" by (simp add: memo_ok_def)
  with Some show ?thesis by (simp add: joides_hit)
qed

lemma memo_ok_snd:
  assumes "memo_ok T G m"
  shows "memo_ok T G (snd (joides wd T G m))"
proof -
  let ?r = "fst (joides wd T G m)"
  have s: "snd (joides wd T G m) = memo_after m wd ?r" by (rule joides_fst_snd)
  have r: "?r = fst (joides wd T G Map.empty)" using assms by (rule memo_ok_fst)
  show ?thesis
  proof (cases ?r)
    case (Inl e)
    with s assms show ?thesis by simp
  next
    case (Inr v)
    show ?thesis
    proof (cases v)
      case None
      with Inr s assms show ?thesis by simp
    next
      case (Some k)
      with Inr s have "snd (joides wd T G m) = m(wd \<mapsto> k)" by simp
      moreover have "fst (joides wd T G Map.empty) = Inr (Some k)" using r Inr Some by simp
      ultimately show ?thesis using assms by (simp add: memo_ok_def)
    qed
  qed
qed

lemma prior_calls_ok:
  "memo_ok T G m \<Longrightarrow> \<forall>c \<in> set calls. fst (snd c) = T \<and> snd (snd c) = G \<Longrightarrow>
   memo_ok T G (prior_calls calls m)"
proof (induction calls arbitrary: m)
  case Nil
  then show ?case by simp
next
  case (Cons c cs)
  obtain wd T' G' where c: "c = (wd, T', G')" by (cases c) auto
  with Cons.prems have "T' = T" "G' = G" by auto
  with Cons c show ?case by (simp add: memo_ok_snd)
qed





lemma inner_no_value_error:
  "\<forall>z \<in> set zs. 0 < wd + z \<Longrightarrow> fst (inner_loop wd T G m zs) \<noteq> Inl ValueError"
  by (induction zs) (auto simp: math_log_def py_div_def Let_def split: sum.splits if_splits)

lemma outer_no_value_error:
  "\<forall>z \<in> set zs. 0 < wd + z \<Longrightarrow> \<forall>z \<in> set candidates. 0 < wd + z \<Longrightarrow>
   fst (outer_loop wd T G m zs) \<noteq> Inl ValueError"
proof (induction zs arbitrary: m)
  case Nil
  show ?case by simp
next
  case (Cons z zs)
  have i: "fst (inner_loop wd T G m candidates) \<noteq> Inl ValueError"
    using Cons.prems(2) by (rule inner_no_value_error)
  have o: "\<And>m'. fst (outer_loop wd T G m' zs) \<noteq> Inl ValueError"
    using Cons by simp
  have z: "math_log (10.17 * real_of_int (wd + z)) \<noteq> Inl ValueError"
    using Cons.prems(1) by (simp add: math_log_def)
  show ?case
    using i o z
    by (auto simp: py_div_def Let_def split: sum.splits prod.splits if_splits)
qed

subsection \<open>The loops in terms of the candidate tests\<close>

lemma inner_loop_Cons:
  "inner_loop wd T G m (z2 # zs) =
     (case phase2_test wd T G z2 of
        Inl e \<Rightarrow> (Inl e, m)
      | Inr t \<Rightarrow> if t then (Inr (Some z2), m(wd \<mapsto> z2)) else inner_loop wd T G m zs)"
  by (simp add: phase2_test_def a_of_def b2_of_def kelvin_def Let_def split: sum.splits)

lemma outer_loop_Cons:
  "outer_loop wd T G m (z # zs) =
     (case a_of wd z of
        Inl e \<Rightarrow> (Inl e, m)
      | Inr a \<Rightarrow>
          if a > 9.355001 then
            (case inner_loop wd T G m candidates of
               (r, m') \<Rightarrow> if r = Inr None then outer_loop wd T G m' zs else (r, m'))
          else
            (case b_of T G z of
               Inl e \<Rightarrow> (Inl e, m)
             | Inr b \<Rightarrow>
                 if a < b then (Inr (Some z), m(wd \<mapsto> z)) else outer_loop wd T G m zs))"
  by (simp add: a_of_def b_of_def kelvin_def Let_def split: sum.splits)

lemma outer_loop_once_Cons:
  "outer_loop_once wd T G m (z # zs) =
     (case a_of wd z of
        Inl e \<Rightarrow> (Inl e, m)
      | Inr a \<Rightarrow>
          if a > 9.355001 then inner_loop wd T G m candidates
          else
            (case b_of T G z of
               Inl e \<Rightarrow> (Inl e, m)
             | Inr b \<Rightarrow>
                 if a < b then (Inr (Some z), m(wd \<mapsto> z))
                 else outer_loop_once wd T G m zs))"
  by (simp add: a_of_def b_of_def kelvin_def Let_def split: sum.splits)

declare inner_loop.simps(2) [simp del] outer_loop.simps(2) [simp del]
  outer_loop_once.simps(2) [simp del]

lemma a_of_mono:
  assumes "a_of wd z = Inr a" "z \<le> z'"
  shows "\<exists>a'. a_of wd z' = Inr a' \<and> a \<le> a'"
proof -
  from assms(1) have pos: "0 < 10.17 * real_of_int (wd + z)"
    and av: "a = ln (10.17 * real_of_int (wd + z))"
    by (auto simp: a_of_def math_log_def split: if_splits)
  from assms(2) have le: "10.17 * real_of_int (wd + z) \<le> 10.17 * real_of_int (wd + z')"
    by simp
  with pos have pos': "0 < 10.17 * real_of_int (wd + z')" by linarith
  have "ln (10.17 * real_of_int (wd + z)) \<le> ln (10.17 * real_of_int (wd + z'))"
    using le pos by (rule ln_mono)
  with av pos' show ?thesis by (simp add: a_of_def math_log_def)
qed

lemma inner_as_first_where:
  "fst (inner_loop wd T G m zs) = first_where (phase2_test wd T G) zs"
  by (induction zs) (simp_all add: inner_loop_Cons split: sum.splits)

lemma inner_none_memo:
  "fst (inner_loop wd T G m zs) = Inr None \<Longrightarrow> inner_loop wd T G m zs = (Inr None, m)"
  using inner_loop_snd [of wd T G m zs] by (cases "inner_loop wd T G m zs") simp

lemma outer_tail_none:
  assumes a: "a_of wd z = Inr a" "a > 9.355001"
    and i: "fst (inner_loop wd T G Map.empty candidates) = Inr None"
    and le: "\<forall>z' \<in> set zs. z \<le> z'"
  shows "outer_loop wd T G m zs = (Inr None, m)"
  using le
proof (induction zs)
  case Nil
  show ?case by simp
next
  case (Cons z' zs)
  from Cons.prems have "z \<le> z'" by simp
  with a(1) obtain a' where a': "a_of wd z' = Inr a'" "a \<le> a'"
    using a_of_mono by blast
  with a(2) have big: "a' > 9.355001" by linarith
  have "fst (inner_loop wd T G m candidates) = Inr None"
    using i by (simp add: inner_loop_fst [of wd T G m])
  then have im: "inner_loop wd T G m candidates = (Inr None, m)" by (rule inner_none_memo)
  have "outer_loop wd T G m zs = (Inr None, m)" using Cons by simp
  then show ?case
    using big by (simp add: outer_loop_Cons a' im)
qed

lemma outer_eq_once:
  "sorted zs \<Longrightarrow> outer_loop wd T G m zs = outer_loop_once wd T G m zs"
proof (induction zs)
  case Nil
  show ?case by simp
next
  case (Cons z zs)
  then have IH: "outer_loop wd T G m zs = outer_loop_once wd T G m zs"
    and le: "\<forall>z' \<in> set zs. z \<le> z'" by simp_all
  show ?case
  proof (cases "a_of wd z")
    case (Inl e)
    then show ?thesis by (simp add: outer_loop_Cons outer_loop_once_Cons)
  next
    case (Inr a)
    show ?thesis
    proof (cases "a > 9.355001")
      case False
      with Inr IH show ?thesis
        by (simp add: outer_loop_Cons outer_loop_once_Cons split: sum.splits)
    next
      case True
      show ?thesis
      proof (cases "fst (inner_loop wd T G m candidates) = Inr None")
        case False
        obtain r m' where im: "inner_loop wd T G m candidates = (r, m')"
          by (cases "inner_loop wd T G m candidates")
        with False have "r \<noteq> Inr None" by simp
        with Inr True im show ?thesis
          by (simp add: outer_loop_Cons outer_loop_once_Cons)
      next
        case None: True
        then have im: "inner_loop wd T G m candidates = (Inr None, m)" by (rule inner_none_memo)
        from None have "fst (inner_loop wd T G Map.empty candidates) = Inr None"
          by (simp add: inner_loop_fst [of wd T G m])
        with Inr True have "outer_loop wd T G m zs = (Inr None, m)"
          using le by (rule outer_tail_none)
        with Inr True im show ?thesis
          by (simp add: outer_loop_Cons outer_loop_once_Cons)
      qed
    qed
  qed
qed

lemma sorted_candidates: "sorted candidates"
  by (simp add: candidates_def)

lemma joides_eq_simplified: "joides wd T G m = joides_simplified wd T G m"
  by (simp add: joides_def joides_simplified_def outer_eq_once [OF sorted_candidates]
      split: option.splits)

lemma once_as_spec:
  "fst (outer_loop_once wd T G m zs) =
     (case first_where (phase1_stop wd T G) zs of
        Inl e \<Rightarrow> Inl e
      | Inr None \<Rightarrow> Inr None
      | Inr (Some z) \<Rightarrow>
          (case a_of wd z of
             Inl e \<Rightarrow> Inl e
           | Inr a \<Rightarrow>
               if a > 9.355001 then first_where (phase2_test wd T G) candidates
               else Inr (Some z)))"
proof (induction zs)
  case Nil
  show ?case by simp
next
  case (Cons z zs)
  then show ?case
    by (simp add: outer_loop_once_Cons phase1_stop_def inner_as_first_where
        split: sum.splits)
qed

lemma joides_clean_spec: "m wd = None \<Longrightarrow> fst (joides wd T G m) = solve_spec wd T G"
  unfolding solve_spec_def candidates_def [symmetric]
  by (simp add: joides_eq_simplified joides_simplified_def once_as_spec)

subsection \<open>Outcomes of the specification-level solver and step counts\<close>

lemma first_where_none:
  "\<forall>x \<in> set xs. p x = Inr False \<Longrightarrow> first_where p xs = Inr None"
  by (induction xs) simp_all

lemma outer_none:
  assumes "\<forall>z \<in> set candidates. phase2_test wd T G z = Inr False"
    and "\<forall>z \<in> set zs. phase1_test wd T G z = Inr False"
  shows "outer_loop wd T G m zs = (Inr None, m)"
  using assms(2)
proof (induction zs)
  case Nil
  show ?case by simp
next
  case (Cons z zs)
  have "fst (inner_loop wd T G m candidates) = Inr None"
    using assms(1) by (simp add: inner_as_first_where first_where_none)
  then have im: "inner_loop wd T G m candidates = (Inr None, m)" by (rule inner_none_memo)
  have IH: "outer_loop wd T G m zs = (Inr None, m)" using Cons by simp
  from Cons.prems have "phase1_test wd T G z = Inr False" by simp
  then show ?case
    by (auto simp: outer_loop_Cons phase1_test_def im IH split: sum.splits if_splits)
qed

lemma first_where_found:
  "first_where p xs = Inr (Some k) \<Longrightarrow> k \<in> set xs \<and> p k = Inr True"
  by (induction xs) (auto split: sum.splits if_splits)






lemma solve_spec_found:
  assumes "solve_spec wd T G = Inr (Some k)"
  shows "k \<in> set candidates \<and>
         (phase1_test wd T G k = Inr True \<or> phase2_test wd T G k = Inr True)"
proof (cases "first_where (phase1_stop wd T G) candidates")
  case (Inl e')
  with assms show ?thesis by (simp add: solve_spec_def candidates_def)
next
  case (Inr v)
  show ?thesis
  proof (cases v)
    case None
    with Inr assms show ?thesis by (simp add: solve_spec_def candidates_def)
  next
    case (Some z)
    with Inr have "first_where (phase1_stop wd T G) candidates = Inr (Some z)" by simp
    then have z: "z \<in> set candidates" "phase1_stop wd T G z = Inr True"
      by (simp_all add: first_where_found)
    show ?thesis
    proof (cases "a_of wd z")
      case (Inl e')
      with Inr Some assms show ?thesis by (simp add: solve_spec_def candidates_def)
    next
      case a: (Inr a)
      show ?thesis
      proof (cases "a > 9.355001")
        case True
        with a Inr Some assms have "first_where (phase2_test wd T G) candidates = Inr (Some k)"
          by (simp add: solve_spec_def candidates_def)
        then show ?thesis by (simp add: first_where_found)
      next
        case False
        with a Inr Some assms have "k = z" by (simp add: solve_spec_def candidates_def)
        moreover from z(2) a False have "phase1_test wd T G z = Inr True"
          by (auto simp: phase1_stop_def phase1_test_def split: sum.splits)
        ultimately show ?thesis using z(1) by simp
      qed
    qed
  qed
qed

lemma in_candidates: "z \<in> set candidates \<longleftrightarrow> 1 \<le> z \<and> z \<le> 2500"
  by (auto simp: candidates_def)





subsection \<open>Bounds on the exponential function\<close>

text \<open>
  The comparisons of logarithms below need \<open>2.716 < e < 2.72\<close>. Both bounds come from
  \<open>(1 + x/n)^n \<le> exp x\<close> at \<open>n = 1024\<close>, the power computed by ten squarings that
  are each rounded down.
\<close>

lemma pow_double_lower:
  fixes x :: real
  assumes "0 \<le> l'" "l' \<le> x ^ n" "l \<le> l' * l'" "m = 2 * n"
  shows "l \<le> x ^ m"
proof -
  have "l' * l' \<le> x ^ n * x ^ n" using assms(1,2) by (intro mult_mono) simp_all
  also have "\<dots> = x ^ m" by (simp add: assms(4) power_add mult_2)
  finally show ?thesis using assms(3) by linarith
qed

lemma pow_1025: "2.716954127 \<le> (1025/1024 :: real) ^ 1024"
proof -
  have p2: "1.001954078 \<le> (1025/1024 :: real) ^ 2" by (simp add: power2_eq_square)
  have p4: "1.003911974 \<le> (1025/1024 :: real) ^ 4"
    by (rule pow_double_lower [OF _ p2]) simp_all
  have p8: "1.007839251 \<le> (1025/1024 :: real) ^ 8"
    by (rule pow_double_lower [OF _ p4]) simp_all
  have p16: "1.015739955 \<le> (1025/1024 :: real) ^ 16"
    by (rule pow_double_lower [OF _ p8]) simp_all
  have p32: "1.031727656 \<le> (1025/1024 :: real) ^ 32"
    by (rule pow_double_lower [OF _ p16]) simp_all
  have p64: "1.064461956 \<le> (1025/1024 :: real) ^ 64"
    by (rule pow_double_lower [OF _ p32]) simp_all
  have p128: "1.133079255 \<le> (1025/1024 :: real) ^ 128"
    by (rule pow_double_lower [OF _ p64]) simp_all
  have p256: "1.283868598 \<le> (1025/1024 :: real) ^ 256"
    by (rule pow_double_lower [OF _ p128]) simp_all
  have p512: "1.648318576 \<le> (1025/1024 :: real) ^ 512"
    by (rule pow_double_lower [OF _ p256]) simp_all
  have p1024: "2.716954127 \<le> (1025/1024 :: real) ^ 1024"
    by (rule pow_double_lower [OF _ p512]) simp_all
  show ?thesis by (rule p1024)
qed

lemma pow_1023: "0.367699479 \<le> (1023/1024 :: real) ^ 1024"
proof -
  have p2: "0.998047828 \<le> (1023/1024 :: real) ^ 2" by (simp add: power2_eq_square)
  have p4: "0.996099466 \<le> (1023/1024 :: real) ^ 4"
    by (rule pow_double_lower [OF _ p2]) simp_all
  have p8: "0.992214146 \<le> (1023/1024 :: real) ^ 8"
    by (rule pow_double_lower [OF _ p4]) simp_all
  have p16: "0.984488911 \<le> (1023/1024 :: real) ^ 16"
    by (rule pow_double_lower [OF _ p8]) simp_all
  have p32: "0.969218415 \<le> (1023/1024 :: real) ^ 32"
    by (rule pow_double_lower [OF _ p16]) simp_all
  have p64: "0.939384335 \<le> (1023/1024 :: real) ^ 64"
    by (rule pow_double_lower [OF _ p32]) simp_all
  have p128: "0.882442928 \<le> (1023/1024 :: real) ^ 128"
    by (rule pow_double_lower [OF _ p64]) simp_all
  have p256: "0.778705521 \<le> (1023/1024 :: real) ^ 256"
    by (rule pow_double_lower [OF _ p128]) simp_all
  have p512: "0.606382288 \<le> (1023/1024 :: real) ^ 512"
    by (rule pow_double_lower [OF _ p256]) simp_all
  have p1024: "0.367699479 \<le> (1023/1024 :: real) ^ 1024"
    by (rule pow_double_lower [OF _ p512]) simp_all
  show ?thesis by (rule p1024)
qed

lemma e_lower: "2.716 < exp (1::real)"
proof -
  have "(1 + 1 / real 1024) ^ 1024 \<le> exp (1::real)"
    by (rule exp_ge_one_plus_x_over_n_power_n) simp_all
  moreover have "(1 + 1 / real 1024) = (1025/1024 :: real)" by simp
  ultimately have "(1025/1024 :: real) ^ 1024 \<le> exp 1" by simp
  with pow_1025 show ?thesis by simp
qed

lemma e_upper: "exp (1::real) < 2.72"
proof -
  have "(1 - 1 / real 1024) ^ 1024 \<le> exp (- (1::real))"
    by (rule exp_ge_one_minus_x_over_n_power_n) simp_all
  moreover have "(1 - 1 / real 1024) = (1023/1024 :: real)" by simp
  ultimately have "(1023/1024 :: real) ^ 1024 \<le> exp (- 1)" by simp
  with pow_1023 have "(0.367699479 :: real) \<le> exp (- 1)" by simp
  then have "(0.367699479 :: real) \<le> 1 / exp 1" by (simp add: exp_minus inverse_eq_divide)
  then have "0.367699479 * exp (1::real) \<le> 1" by (simp add: field_simps)
  then show ?thesis by simp
qed

lemma exp_nat_upper: "0 < n \<Longrightarrow> exp (real n) < 2.72 ^ n"
proof -
  assume "0 < n"
  have "exp (real n) = exp (real n * 1)" by simp
  also have "\<dots> = exp 1 ^ n" by (rule exp_of_nat_mult)
  also have "\<dots> < 2.72 ^ n"
    using e_upper \<open>0 < n\<close> by (intro power_strict_mono) simp_all
  finally show ?thesis .
qed

lemma exp_nat_lower: "0 < n \<Longrightarrow> 2.716 ^ n < exp (real n)"
proof -
  assume "0 < n"
  have "2.716 ^ n < exp (1::real) ^ n"
    using e_lower \<open>0 < n\<close> by (intro power_strict_mono) simp_all
  also have "\<dots> = exp (real n * 1)" by (rule exp_of_nat_mult [symmetric])
  finally show ?thesis by simp
qed

text \<open>Comparing a logarithm with the fraction p / q through powers of the two bounds.\<close>

lemma ln_gt_frac:
  fixes x :: real
  assumes "0 < p" "0 < q" "0 < x" "2.72 ^ p \<le> x ^ q"
  shows "real p / real q < ln x"
proof -
  have "exp (real p) < x ^ q" using exp_nat_upper [OF assms(1)] assms(4) by linarith
  moreover have "x ^ q = exp (real q * ln x)"
    using assms(3) by (simp add: exp_of_nat_mult)
  ultimately have "real p < real q * ln x" by simp
  then show ?thesis using assms(2) by (simp add: field_simps)
qed

lemma ln_lt_frac:
  fixes x :: real
  assumes "0 < p" "0 < q" "0 < x" "x ^ q \<le> 2.716 ^ p"
  shows "ln x < real p / real q"
proof -
  have "x ^ q < exp (real p)" using exp_nat_lower [OF assms(1)] assms(4) by linarith
  moreover have "x ^ q = exp (real q * ln x)"
    using assms(3) by (simp add: exp_of_nat_mult)
  ultimately have "real q * ln x < real p" by simp
  then show ?thesis using assms(2) by (simp add: field_simps)
qed

subsection \<open>The grid evaluation in terms of the solver\<close>

lemma solve_spec_eq: "solve wd T G = solve_spec wd T G"
  by (simp add: solve_def joides_clean_spec)








subsection \<open>Bounds on the quantities of a candidate\<close>

lemma a_of_val: "0 < wd + z \<Longrightarrow> a_of wd z = Inr (ln (10.17 * real_of_int (wd + z)))"
proof -
  assume "0 < wd + z"
  then have "0 < real_of_int (wd + z)" by (simp only: of_int_0_less_iff)
  then have "0 < 10.17 * real_of_int (wd + z)" by simp
  then show ?thesis unfolding a_of_def math_log_def by (simp only: not_le [symmetric] if_False)
qed

lemma a_of_gt:
  assumes "0 < p" "0 < q" "0 < wd + z0" "z0 \<le> z"
    and "2.72 ^ p \<le> (10.17 * real_of_int (wd + z0)) ^ q"
  shows "\<exists>a. a_of wd z = Inr a \<and> real p / real q < a"
proof -
  from assms(3) have "0 < real_of_int (wd + z0)" by (simp only: of_int_0_less_iff)
  then have pos: "0 < 10.17 * real_of_int (wd + z0)" by simp
  have "real p / real q < ln (10.17 * real_of_int (wd + z0))"
    using assms(1,2) pos assms(5) by (rule ln_gt_frac)
  moreover obtain a where "a_of wd z = Inr a" "ln (10.17 * real_of_int (wd + z0)) \<le> a"
    using a_of_mono [OF a_of_val [OF assms(3)] assms(4)] by blast
  ultimately show ?thesis by force
qed

lemma a_of_lt:
  assumes "0 < p" "0 < q" "0 < wd + z" "z \<le> z1"
    and "(10.17 * real_of_int (wd + z1)) ^ q \<le> 2.716 ^ p"
  shows "\<exists>a. a_of wd z = Inr a \<and> a < real p / real q"
proof -
  from assms(3,4) have z1: "0 < wd + z1" by simp
  then have "0 < real_of_int (wd + z1)" by (simp only: of_int_0_less_iff)
  then have pos: "0 < 10.17 * real_of_int (wd + z1)" by simp
  have "ln (10.17 * real_of_int (wd + z1)) < real p / real q"
    using assms(1,2) pos assms(5) by (rule ln_lt_frac)
  moreover obtain a' where "a_of wd z1 = Inr a'" "ln (10.17 * real_of_int (wd + z)) \<le> a'"
    using a_of_mono [OF a_of_val [OF assms(3)] assms(4)] by blast
  ultimately show ?thesis using a_of_val [OF assms(3)] a_of_val [OF z1] by force
qed


lemma b2_of_le:
  assumes "0 < kelvin T G z" "kelvin T G z \<le> K" "(46.74 - t) * K \<le> 10748.1" "t \<le> 46.74"
  shows "\<exists>b. b2_of T G z = Inr b \<and> b \<le> t"
proof -
  have "(46.74 - t) * kelvin T G z \<le> (46.74 - t) * K"
    using assms(2,4) by (intro mult_left_mono) simp_all
  with assms(3) have "(46.74 - t) * kelvin T G z \<le> 10748.1" by linarith
  with assms(1) have "46.74 - t \<le> 10748.1 / kelvin T G z" by (simp add: field_simps)
  then have "46.74 - 10748.1 / kelvin T G z \<le> t" by linarith
  with assms(1) show ?thesis by (simp add: b2_of_def py_div_def)
qed

lemma b2_of_gt:
  assumes "0 < K" "K \<le> kelvin T G z" "10748.1 < (46.74 - t) * K" "t \<le> 46.74"
  shows "\<exists>b. b2_of T G z = Inr b \<and> t < b"
proof -
  from assms(1,2) have pos: "0 < kelvin T G z" by linarith
  have "(46.74 - t) * K \<le> (46.74 - t) * kelvin T G z"
    using assms(2,4) by (intro mult_left_mono) simp_all
  with assms(3) have "10748.1 < (46.74 - t) * kelvin T G z" by linarith
  with pos have "10748.1 / kelvin T G z < 46.74 - t" by (simp add: field_simps)
  then have "t < 46.74 - 10748.1 / kelvin T G z" by linarith
  with pos show ?thesis by (simp add: b2_of_def py_div_def)
qed

lemma candidates_Cons: "\<exists>zs. candidates = 1 # zs"
  unfolding candidates_def by (rule exI [of _ "[1 + 1..2500]"], rule upto_rec1) simp

lemma solve_spec_candidates:
  "solve_spec wd T G =
     (case first_where (phase1_stop wd T G) candidates of
        Inl e \<Rightarrow> Inl e
      | Inr None \<Rightarrow> Inr None
      | Inr (Some z) \<Rightarrow>
          (case a_of wd z of
             Inl e \<Rightarrow> Inl e
           | Inr a \<Rightarrow>
               if a > 9.355001 then first_where (phase2_test wd T G) candidates
               else Inr (Some z)))"
  unfolding solve_spec_def candidates_def ..

lemma b_of_le:
  assumes "0 < kelvin T G z" "kelvin T G z \<le> K" "(38.53 - t) * K \<le> 8386.8" "t \<le> 38.53"
  shows "\<exists>b. b_of T G z = Inr b \<and> b \<le> t"
proof -
  have "(38.53 - t) * kelvin T G z \<le> (38.53 - t) * K"
    using assms(2,4) by (intro mult_left_mono) simp_all
  with assms(3) have "(38.53 - t) * kelvin T G z \<le> 8386.8" by linarith
  with assms(1) have "38.53 - t \<le> 8386.8 / kelvin T G z" by (simp add: field_simps)
  then have "38.53 - 8386.8 / kelvin T G z \<le> t" by linarith
  with assms(1) show ?thesis by (simp add: b_of_def py_div_def)
qed

lemma b_of_gt:
  assumes "0 < K" "K \<le> kelvin T G z" "8386.8 < (38.53 - t) * K" "t \<le> 38.53"
  shows "\<exists>b. b_of T G z = Inr b \<and> t < b"
proof -
  from assms(1,2) have pos: "0 < kelvin T G z" by linarith
  have "(38.53 - t) * K \<le> (38.53 - t) * kelvin T G z"
    using assms(2,4) by (intro mult_left_mono) simp_all
  with assms(3) have "8386.8 < (38.53 - t) * kelvin T G z" by linarith
  with pos have "8386.8 / kelvin T G z < 38.53 - t" by (simp add: field_simps)
  then have "t < 38.53 - 8386.8 / kelvin T G z" by linarith
  with pos show ?thesis by (simp add: b_of_def py_div_def)
qed


lemma b2_of_zero: "kelvin T G z = 0 \<Longrightarrow> b2_of T G z = Inl ZeroDivisionError"
  by (simp add: b2_of_def py_div_def)

subsection \<open>Concrete runs\<close>

lemma solve_1000_30_30: "solve 1000 30 30 = Inr (Some 1)"
proof -
  obtain zs where c: "candidates = 1 # zs" using candidates_Cons by blast
  obtain a where a: "a_of 1000 1 = Inr a" "a < 10"
    using a_of_lt [of 10 1 1000 1 1] by (auto simp: power_divide)
  have k: "kelvin 30 30 1 = 303.18" by (simp add: kelvin_def)
  obtain b where b: "b_of 30 30 1 = Inr b" "10 < b"
    using b_of_gt [of "303.18" 30 30 1 10] by (auto simp: k)
  obtain b2 where b2: "b2_of 30 30 1 = Inr b2" "10 < b2"
    using b2_of_gt [of "303.18" 30 30 1 10] by (auto simp: k)
  have p1: "phase1_stop 1000 30 30 1 = Inr True"
    using a b by (simp add: phase1_stop_def)
  have p2: "phase2_test 1000 30 30 1 = Inr True"
    using a b2 by (simp add: phase2_test_def)
  have "solve_spec 1000 30 30 = Inr (Some 1)"
    unfolding solve_spec_candidates c using a by (simp add: p1 p2)
  then show ?thesis by (simp add: solve_spec_eq)
qed

lemma solve_1000_4_30: "solve 1000 4 30 \<noteq> Inr (Some 1)"
proof
  assume "solve 1000 4 30 = Inr (Some 1)"
  then have "solve_spec 1000 4 30 = Inr (Some 1)" by (simp add: solve_spec_eq)
  then have hit: "phase1_test 1000 4 30 1 = Inr True \<or> phase2_test 1000 4 30 1 = Inr True"
    by (simp add: solve_spec_found)
  obtain a where a: "a_of 1000 1 = Inr a" "9 < a"
    using a_of_gt [of 9 1 1000 1 1] by (auto simp: power_divide)
  have k: "kelvin 4 30 1 = 277.18" by (simp add: kelvin_def)
  obtain b where b: "b_of 4 30 1 = Inr b" "b \<le> 9"
    using b_of_le [of 4 30 1 "277.18" 9] by (auto simp: k)
  obtain b2 where b2: "b2_of 4 30 1 = Inr b2" "b2 \<le> 9"
    using b2_of_le [of 4 30 1 "277.18" 9] by (auto simp: k)
  have "phase1_test 1000 4 30 1 = Inr False" using a b by (simp add: phase1_test_def)
  moreover have "phase2_test 1000 4 30 1 = Inr False" using a b2 by (simp add: phase2_test_def)
  ultimately show False using hit by simp
qed


lemma kelvin_0_10: "kelvin 0 10 z = real_of_int z / 100 + 273.15"
  by (simp add: kelvin_def)

lemma no_hit_2500_0_10:
  assumes "z \<in> set candidates"
  shows "phase1_test 2500 0 10 z = Inr False \<and> phase2_test 2500 0 10 z = Inr False"
proof -
  from assms have z: "1 \<le> z" "z \<le> 2500" by (simp_all add: in_candidates)
  then have k: "0 < kelvin 0 10 z" by (simp add: kelvin_0_10)
  have "\<exists>a b2. a_of 2500 z = Inr a \<and> b2_of 0 10 z = Inr b2 \<and> 10 < a \<and> b2 < a"
  proof -
    consider "z \<le> 1500" | "1501 \<le> z" "z \<le> 2200" | "2201 \<le> z" using z by linarith
    then show ?thesis
    proof cases
      case 1
      obtain a where a: "a_of 2500 z = Inr a" "10 < a"
        using a_of_gt [of 10 1 2500 1 z] z by (auto simp: power_divide)
      have "kelvin 0 10 z \<le> 288.15" using 1 by (simp add: kelvin_0_10)
      then obtain b2 where "b2_of 0 10 z = Inr b2" "b2 \<le> 10"
        using b2_of_le [OF k, of "288.15" 10] by auto
      with a show ?thesis by force
    next
      case 2
      obtain a where a: "a_of 2500 z = Inr a" "21 / 2 < a"
        using a_of_gt [of 21 2 2500 1501 z] 2 by (auto simp: power_divide)
      have "kelvin 0 10 z \<le> 295.15" using 2 by (simp add: kelvin_0_10)
      then obtain b2 where "b2_of 0 10 z = Inr b2" "b2 \<le> 21 / 2"
        using b2_of_le [OF k, of "295.15" "21 / 2"] by auto
      with a show ?thesis by force
    next
      case 3
      obtain a where a: "a_of 2500 z = Inr a" "43 / 4 < a"
        using a_of_gt [of 43 4 2500 2201 z] 3 by (auto simp: power_divide)
      have "kelvin 0 10 z \<le> 298.15" using z by (simp add: kelvin_0_10)
      then obtain b2 where "b2_of 0 10 z = Inr b2" "b2 \<le> 43 / 4"
        using b2_of_le [OF k, of "298.15" "43 / 4"] by auto
      with a show ?thesis by force
    qed
  qed
  then obtain a b2 where "a_of 2500 z = Inr a" "b2_of 0 10 z = Inr b2" "10 < a" "b2 < a"
    by blast
  then show ?thesis by (simp add: phase1_test_def phase2_test_def)
qed


lemma joides_none:
  assumes "\<forall>z \<in> set candidates.
             phase1_test wd T G z = Inr False \<and> phase2_test wd T G z = Inr False"
    and "m wd = None"
  shows "joides wd T G m = (Inr None, m)"
  using assms by (simp add: joides_def outer_none)

lemma solve_2500_0_10: "solve 2500 0 10 = Inr None"
  using joides_none [of 2500 0 10 Map.empty] no_hit_2500_0_10 by (simp add: solve_def)




subsection \<open>The no-data depth against the depths 0 to 2500\<close>









subsection \<open>The unsolvable depth examines every candidate of every scan\<close>




section \<open>The claims of the specification\<close>

text \<open>
  Claim C1, as amended. The dictionary is keyed by the water depth alone, so the claim
  fails for a dictionary left by calls with other parameters (see the counterexample
  below). What holds: after any sequence of earlier calls that all used the same
  \<open>T\<close> and \<open>G\<close>, \<^verbatim>\<open>joides\<close> returns for \<open>(wd, T, G)\<close> what it returns with the dictionary
  cleared.
\<close>

theorem memo_transparent_same_parameters:
  "\<forall>c \<in> set calls. fst (snd c) = T \<and> snd (snd c) = G \<Longrightarrow>
   fst (joides wd T G (prior_calls calls Map.empty)) = solve wd T G"
  unfolding solve_def
  by (rule memo_ok_fst) (rule prior_calls_ok [OF memo_ok_empty])

theorem memo_transparent_same_parameters_witness:
  "fst (joides 1000 30 30 (prior_calls [(1000, 30, 30), (5, 30, 30)] Map.empty)) =
   solve 1000 30 30"
  using memo_transparent_same_parameters [of "[(1000, 30, 30), (5, 30, 30)]" 30 30 1000]
  by simp

text \<open>
  The claim as stated fails: after one call for the depth 1000 with \<open>T = 30\<close>,
  \<open>G = 30\<close>, which returns 1, a call for the depth 1000 with \<open>T = 4\<close>, \<open>G = 30\<close> returns
  the stored 1, which is not what the cleared dictionary gives.
\<close>

theorem memo_stale_counterexample:
  "fst (joides 1000 4 30 (prior_calls [(1000, 30, 30)] Map.empty)) \<noteq>
   fst (joides 1000 4 30 Map.empty)"
proof -
  have "snd (joides 1000 30 30 Map.empty) = Map.empty(1000 \<mapsto> 1)"
    using joides_fst_snd [of 1000 30 30 Map.empty] solve_1000_30_30
    by (simp add: solve_def)
  then have "prior_calls [(1000, 30, 30)] Map.empty 1000 = Some 1" by simp
  then have "fst (joides 1000 4 30 (prior_calls [(1000, 30, 30)] Map.empty)) = Inr (Some 1)"
    by (simp add: joides_hit)
  with solve_1000_4_30 show ?thesis by (simp add: solve_def)
qed

text \<open>
  Claim C2. For \<open>water_depth \<ge> 0\<close> the solver, called with a cleared dictionary,
  computes what the specification describes (\<open>solve_spec\<close>): it scans \<open>z = 1..2500\<close> in
  order with \<open>a = ln (10.17 * (water_depth + z))\<close>; while \<open>a \<le> 9.355001\<close> it returns
  the first \<open>z\<close> with \<open>a < 38.53 - 8386.8 / (T + z * G / 1000 + 273.15)\<close>; at the first
  \<open>z\<close> with \<open>a > 9.355001\<close> it runs a fresh scan \<open>z2 = 1..2500\<close> and returns the first
  \<open>z2\<close> with \<open>ln (10.17 * (water_depth + z2)) < 46.74 - 10748.1 / (T + z2 * G / 1000 + 273.15)\<close>.
\<close>

theorem solve_meets_spec:
  "0 \<le> wd \<Longrightarrow> solve wd T G = solve_spec wd T G"
  by (simp add: solve_def joides_clean_spec)

theorem solve_meets_spec_witness:
  "(0::int) \<le> 1000 \<and> solve 1000 4 30 = solve_spec 1000 4 30"
  using solve_meets_spec [of 1000 4 30] by simp






text \<open>
  Claim C5. When no candidate of \<open>1..2500\<close> satisfies the inequality of either phase
  (each test evaluates, and evaluates to false), a call that misses the dictionary returns
  \<^verbatim>\<open>None\<close>, the "not found" outcome, and no integer at all; the dictionary is unchanged.
\<close>

theorem not_found_when_no_candidate:
  assumes "\<forall>z \<in> set candidates.
             phase1_test wd T G z = Inr False \<and> phase2_test wd T G z = Inr False"
    and "m wd = None"
  shows "joides wd T G m = (Inr None, m)"
  using assms by (simp add: joides_def outer_none)

theorem not_found_when_no_candidate_witness:
  "phase1_test 2500 0 10 1 = Inr False \<and> phase2_test 2500 0 10 1 = Inr False \<and>
   phase1_test 2500 0 10 2500 = Inr False \<and> phase2_test 2500 0 10 2500 = Inr False \<and>
   joides 2500 0 10 Map.empty = (Inr None, Map.empty)"
proof -
  have h: "\<forall>z \<in> set candidates.
             phase1_test 2500 0 10 z = Inr False \<and> phase2_test 2500 0 10 z = Inr False"
    using no_hit_2500_0_10 by blast
  have "joides 2500 0 10 Map.empty = (Inr None, Map.empty)"
    using h by (rule not_found_when_no_candidate) simp
  moreover have "(1::int) \<in> set candidates" "(2500::int) \<in> set candidates"
    by (simp_all add: in_candidates)
  ultimately show ?thesis using h by blast
qed



text \<open>
  Claim C7. With \<open>water_depth \<ge> 0\<close>, every argument that the search passes to the
  logarithm, \<open>10.17 * (water_depth + z)\<close> for a candidate \<open>z\<close> of \<open>1..2500\<close>, is
  strictly positive, and so \<^verbatim>\<open>joides\<close> never ends with the \<^verbatim>\<open>ValueError\<close> of
  \<^verbatim>\<open>math.log\<close>, whatever the temperature, the gradient and the dictionary.
\<close>

theorem log_argument_positive:
  assumes "0 \<le> wd"
  shows "(\<forall>z \<in> set candidates. 0 < 10.17 * real_of_int (wd + z)) \<and>
         fst (joides wd T G m) \<noteq> Inl ValueError"
proof -
  have pos: "\<forall>z \<in> set candidates. 0 < wd + z"
    using assms by (auto simp: candidates_def)
  have "fst (outer_loop wd T G m candidates) \<noteq> Inl ValueError"
    using pos pos by (rule outer_no_value_error)
  then have "fst (joides wd T G m) \<noteq> Inl ValueError"
    by (simp add: joides_def split: option.splits)
  moreover have "\<forall>z \<in> set candidates. 0 < 10.17 * real_of_int (wd + z)"
  proof
    fix z assume "z \<in> set candidates"
    with pos have "0 < wd + z" by blast
    then have "0 < real_of_int (wd + z)" by (simp only: of_int_0_less_iff)
    then show "0 < 10.17 * real_of_int (wd + z)" by simp
  qed
  ultimately show ?thesis by simp
qed

theorem log_argument_positive_witness:
  "(0::int) \<le> 1000 \<and> 0 < 10.17 * real_of_int (1000 + 1) \<and>
   0 < 10.17 * real_of_int (1000 + 2500) \<and>
   fst (joides 1000 4 30 Map.empty) \<noteq> Inl ValueError"
  using log_argument_positive [of 1000 4 30 Map.empty] by simp




text \<open>
  Claim C9. \<^verbatim>\<open>joides\<close> stores only found results: a call that returns \<^verbatim>\<open>None\<close> leaves
  the dictionary as it was, and whenever a call changes the dictionary it returns a found
  value \<open>k\<close> and the change is the one entry \<open>water_depth \<mapsto> k\<close>.
\<close>

theorem cache_only_on_success:
  "(fst (joides wd T G m) = Inr None \<longrightarrow> snd (joides wd T G m) = m) \<and>
   (snd (joides wd T G m) \<noteq> m \<longrightarrow>
      (\<exists>k. fst (joides wd T G m) = Inr (Some k) \<and> snd (joides wd T G m) = m(wd \<mapsto> k)))"
proof -
  have s: "snd (joides wd T G m) = memo_after m wd (fst (joides wd T G m))"
    by (rule joides_fst_snd)
  show ?thesis
    by (subst (1 2 3) s) (auto simp: memo_after_def split: sum.splits option.splits)
qed

theorem cache_only_on_success_witness:
  "fst (joides 2500 0 10 Map.empty) = Inr None \<and>
   snd (joides 2500 0 10 Map.empty) = Map.empty \<and>
   snd (joides 1000 30 30 Map.empty) \<noteq> Map.empty \<and>
   fst (joides 1000 30 30 Map.empty) = Inr (Some 1) \<and>
   snd (joides 1000 30 30 Map.empty) = Map.empty(1000 \<mapsto> 1)"
proof -
  have n: "fst (joides 2500 0 10 Map.empty) = Inr None"
    using solve_2500_0_10 by (simp add: solve_def)
  have f: "fst (joides 1000 30 30 Map.empty) = Inr (Some 1)"
    using solve_1000_30_30 by (simp add: solve_def)
  have "snd (joides 1000 30 30 Map.empty) = Map.empty(1000 \<mapsto> 1)"
    using joides_fst_snd [of 1000 30 30 Map.empty] f by simp
  then have c: "snd (joides 1000 30 30 Map.empty) \<noteq> Map.empty"
    by (metis map_upd_nonempty)
  show ?thesis
    using n f c cache_only_on_success [of 2500 0 10 Map.empty]
      cache_only_on_success [of 1000 30 30 Map.empty]
    by auto
qed

text \<open>
  Claim C10. For \<open>water_depth \<ge> 0\<close> the solver equals the simplified variant that, at
  the first candidate \<open>z\<close> with \<open>a > 9.355001\<close>, runs the inner scan once and returns its
  outcome, found or not, without going on with the outer loop: result and dictionary
  agree. The reason is that \<open>a\<close> grows with \<open>z\<close>, so every later candidate of the outer
  loop repeats the same inner scan.
\<close>

theorem joides_equals_simplified:
  "0 \<le> wd \<Longrightarrow> joides wd T G m = joides_simplified wd T G m"
  by (rule joides_eq_simplified)

theorem joides_equals_simplified_witness:
  "(0::int) \<le> 1000 \<and> joides 1000 4 30 Map.empty = joides_simplified 1000 4 30 Map.empty"
  using joides_equals_simplified [of 1000 4 30 Map.empty] by simp

end
